theory Spec2Isabelle
  imports Complex_Main "HOL-Library.Char_ord" "HOL-Library.List_Lexorder" "HOL-Library.AList"
begin

section \<open>Numbers and strings of the source language\<close>

text \<open>
  The program computes with Python floats. They are read here as exact rationals: every
  product, sum, quotient and difference is the mathematical one, and \<open>round(x, n)\<close> is
  rounding to the nearest multiple of \<open>10^-n\<close> with halves going to the even neighbour.
  Binary rounding error of the hardware is outside this development.
\<close>

definition round_half_even :: "rat \<Rightarrow> int" where
  "round_half_even x =
     (let f = \<lfloor>x\<rfloor>; r = x - of_int f
      in if r < 1 / 2 then f
         else if 1 / 2 < r then f + 1
         else if even f then f else f + 1)"

definition py_round :: "rat \<Rightarrow> nat \<Rightarrow> rat" where
  "py_round x n = of_int (round_half_even (x * 10 ^ n)) / 10 ^ n"

text \<open>\<open>str.upper()\<close> on ASCII text: the letters a..z move to A..Z, all else stays.\<close>

definition upper_char :: "char \<Rightarrow> char" where
  "upper_char c =
     (let n = (of_char c :: nat)
      in if 97 \<le> n \<and> n \<le> 122 then char_of (n - 32) else c)"

definition upper :: "string \<Rightarrow> string" where
  "upper s = map upper_char s"

text \<open>Decimal digits of a number that is not negative, most significant first.\<close>

definition digit_char :: "int \<Rightarrow> char" where
  "digit_char d = ''0123456789'' ! nat d"

function digits :: "int \<Rightarrow> string" where
  "digits n = (if n < 10 then [digit_char n] else digits (n div 10) @ [digit_char (n mod 10)])"
  by pat_completeness auto
termination
  by (relation "measure nat") auto

declare digits.simps [simp del]

text \<open>
  The fractional part of a number with three decimals, as \<open>str\<close> prints it: trailing
  zeros are dropped, one digit always stays.
\<close>

definition frac3 :: "int \<Rightarrow> string" where
  "frac3 k =
     (let d1 = digit_char (k div 100 mod 10);
          d2 = digit_char (k div 10 mod 10);
          d3 = digit_char (k mod 10)
      in if k mod 10 \<noteq> 0 then [d1, d2, d3]
         else if k div 10 mod 10 \<noteq> 0 then [d1, d2]
         else [d1])"

text \<open>
  \<open>str(x)\<close> for a float \<open>x\<close> that holds a number with at most three decimals (the result
  of \<open>round(_, 3)\<close>), in absolute value below \<open>10^16\<close>, where Python prints positional
  notation: sign, integer part, point, fraction.
\<close>

definition str_float :: "rat \<Rightarrow> string" where
  "str_float x =
     (let k = \<lfloor>\<bar>x\<bar> * 1000\<rfloor>
      in (if x < 0 then ''-'' else '''') @ digits (k div 1000) @ ''.'' @ frac3 (k mod 1000))"

section \<open>Classification map\<close>

datatype AssetClassification =
    STOCKS_USA_SMALL_CAP
  | STOCKS_USA_SP500
  | STOCKS_EMERGING_MARKET
  | STOCKS_INTERNATIONAL
  | BONDS_CORP
  | BONDS_EMERGING_MARKET
  | REAL_ESTATE

text \<open>The exceptions the program can raise.\<close>

datatype error =
    NoPercentageTarget "AssetClassification option"
      \<comment> \<open>RuntimeError of \<open>get_percentage_target\<close>\<close>
  | NoOwnedShares string
      \<comment> \<open>RuntimeError of \<open>buy_symbol\<close>\<close>
  | ZeroDivisionError
  | ValueError
      \<comment> \<open>\<open>min\<close> of an empty sequence\<close>
  | AttributeError
      \<comment> \<open>attribute access on \<open>None\<close>\<close>

text \<open>
  \<open>get_percentage_target\<close>: the \<open>match\<close> statement has one case per member of the
  enumeration; any other value, \<open>None\<close> included, falls through to the \<open>raise\<close>.
\<close>

fun get_percentage_target :: "AssetClassification option \<Rightarrow> error + rat" where
  "get_percentage_target (Some STOCKS_USA_SMALL_CAP) = Inr (10 / 100)"
| "get_percentage_target (Some STOCKS_USA_SP500) = Inr (40 / 100)"
| "get_percentage_target (Some STOCKS_EMERGING_MARKET) = Inr (5 / 100)"
| "get_percentage_target (Some STOCKS_INTERNATIONAL) = Inr (25 / 100)"
| "get_percentage_target (Some BONDS_CORP) = Inr (10 / 100)"
| "get_percentage_target (Some BONDS_EMERGING_MARKET) = Inr (5 / 100)"
| "get_percentage_target (Some REAL_ESTATE) = Inr (5 / 100)"
| "get_percentage_target None = Inl (NoPercentageTarget None)"

text \<open>
  \<open>Asset._get_classification\<close>: an \<open>if\<close>/\<open>elif\<close> chain with no \<open>else\<close>, so a symbol
  outside the seven returns \<open>None\<close>.
\<close>

definition get_classification :: "string \<Rightarrow> AssetClassification option" where
  "get_classification smb =
     (if smb = ''VNQ'' then Some REAL_ESTATE
      else if smb = ''VWO'' then Some STOCKS_EMERGING_MARKET
      else if smb = ''VCIT'' then Some BONDS_CORP
      else if smb = ''VTWO'' then Some STOCKS_USA_SMALL_CAP
      else if smb = ''VXUS'' then Some STOCKS_INTERNATIONAL
      else if smb = ''VOO'' then Some STOCKS_USA_SP500
      else if smb = ''VWOB'' then Some BONDS_EMERGING_MARKET
      else None)"

section \<open>Asset\<close>

record asset =
  symbol :: string
  market_price :: rat
  quantity :: int
  description :: string
  classification :: "AssetClassification option"

text \<open>\<open>Asset.__init__\<close>\<close>

definition Asset :: "string \<Rightarrow> rat \<Rightarrow> int \<Rightarrow> string \<Rightarrow> asset" where
  "Asset smb price qty descr =
     \<lparr>symbol = upper smb,
      market_price = py_round price 2,
      quantity = qty,
      description = descr,
      classification = get_classification (upper smb)\<rparr>"

definition get_value :: "asset \<Rightarrow> rat" where
  "get_value a = of_int (quantity a) * market_price a"

section \<open>Portfolio\<close>

record portfolio =
  assets :: "asset list"
  total_value :: rat

definition update_total_value :: "portfolio \<Rightarrow> portfolio" where
  "update_total_value p = p\<lparr>total_value := sum_list (map get_value (assets p))\<rparr>"

text \<open>\<open>PortFolio.__init__\<close>\<close>

definition PortFolio :: "asset list \<Rightarrow> portfolio" where
  "PortFolio as = update_total_value \<lparr>assets = as, total_value = 0\<rparr>"

definition get_percent_classification ::
  "portfolio \<Rightarrow> AssetClassification option \<Rightarrow> error + rat" where
  "get_percent_classification p c =
     (let asset_value = sum_list (map get_value (filter (\<lambda>a. classification a = c) (assets p)))
      in if total_value p = 0 then Inl ZeroDivisionError
         else Inr (asset_value / total_value p))"

text \<open>The \<open>for\<close> loop of \<open>get_difference_from_target\<close>, with the running \<open>difference\<close>.\<close>

fun difference_loop :: "portfolio \<Rightarrow> asset list \<Rightarrow> rat \<Rightarrow> error + rat" where
  "difference_loop p [] difference = Inr difference"
| "difference_loop p (a # as) difference =
     (case get_percent_classification p (classification a) of
        Inl e \<Rightarrow> Inl e
      | Inr percent_classification \<Rightarrow>
          (case get_percentage_target (classification a) of
             Inl e \<Rightarrow> Inl e
           | Inr percent_target \<Rightarrow>
               difference_loop p as (difference + \<bar>percent_classification - percent_target\<bar>)))"

definition get_difference_from_target :: "portfolio \<Rightarrow> error + rat" where
  "get_difference_from_target p =
     (case difference_loop p (assets p) 0 of
        Inl e \<Rightarrow> Inl e
      | Inr difference \<Rightarrow> Inr (py_round difference 3))"

text \<open>\<open>get_asset\<close>: the first asset of the list with the symbol, or \<open>None\<close>.\<close>

definition get_asset :: "portfolio \<Rightarrow> string \<Rightarrow> asset option" where
  "get_asset p smb =
     (case filter (\<lambda>a. symbol a = smb) (assets p) of
        [] \<Rightarrow> None
      | a # _ \<Rightarrow> Some a)"

text \<open>
  \<open>matching_asset.quantity += shares\<close> writes to the object \<open>get_asset\<close> returned, which
  is the first one of the list with the symbol.
\<close>

fun add_shares :: "string \<Rightarrow> int \<Rightarrow> asset list \<Rightarrow> asset list" where
  "add_shares smb shares [] = []"
| "add_shares smb shares (a # as) =
     (if symbol a = smb then a\<lparr>quantity := quantity a + shares\<rparr> # as
      else a # add_shares smb shares as)"

text \<open>
  \<open>buy_symbol\<close> changes the portfolio in place or raises. The result is the outcome
  together with the portfolio as the call leaves it. An \<open>Asset\<close> object is always
  truthy, so the \<open>else\<close> branch is taken exactly when \<open>get_asset\<close> returns \<open>None\<close>.
\<close>

definition buy_symbol :: "portfolio \<Rightarrow> string \<Rightarrow> int \<Rightarrow> (error + unit) \<times> portfolio" where
  "buy_symbol p smb shares =
     (case get_asset p smb of
        Some matching_asset \<Rightarrow>
          (Inr (), update_total_value (p\<lparr>assets := add_shares smb shares (assets p)\<rparr>))
      | None \<Rightarrow> (Inl (NoOwnedShares smb), p))"

section \<open>The allocator\<close>

definition CASH_TO_INVEST :: rat where
  "CASH_TO_INVEST = 17000"

text \<open>
  \<open>diff_asset_dict\<close> is a dictionary from the printed score to a portfolio. It is kept as
  an association list in insertion order; \<open>AList.update\<close> overwrites the value of a key
  that is present and appends a new key, as assignment to a Python \<open>dict\<close> does.
\<close>

type_synonym candidates = "(string \<times> portfolio) list"

text \<open>
  The body of the \<open>for symbol in symbol_list\<close> loop. \<open>copy.deepcopy\<close> of the asset list
  is the list itself, read as a value. \<open>diff_asset_dict.get(diff_key)\<close> is a
  \<open>PortFolio\<close> object or \<open>None\<close>, and a \<open>PortFolio\<close> object is always truthy.
\<close>

definition explore_symbol :: "portfolio \<Rightarrow> candidates \<Rightarrow> string \<Rightarrow> error + candidates" where
  "explore_symbol working_portfolio diff_asset_dict smb =
     (let new_assets = assets working_portfolio;
          (bought, new_portfolio) = buy_symbol (PortFolio new_assets) smb 1
      in case bought of
           Inl e \<Rightarrow> Inl e
         | Inr _ \<Rightarrow>
             (case get_difference_from_target new_portfolio of
                Inl e \<Rightarrow> Inl e
              | Inr difference \<Rightarrow>
                  (let diff_key = str_float difference
                   in case map_of diff_asset_dict diff_key of
                        Some _ \<Rightarrow>
                          (let (bought_again, new_portfolio2) = buy_symbol new_portfolio smb 1
                           in case bought_again of
                                Inl e \<Rightarrow> Inl e
                              | Inr _ \<Rightarrow> Inr (AList.update diff_key new_portfolio2 diff_asset_dict))
                      | None \<Rightarrow> Inr (AList.update diff_key new_portfolio diff_asset_dict))))"

fun explore :: "portfolio \<Rightarrow> string list \<Rightarrow> candidates \<Rightarrow> error + candidates" where
  "explore working_portfolio [] diff_asset_dict = Inr diff_asset_dict"
| "explore working_portfolio (smb # symbol_list) diff_asset_dict =
     (case explore_symbol working_portfolio diff_asset_dict smb of
        Inl e \<Rightarrow> Inl e
      | Inr d \<Rightarrow> explore working_portfolio symbol_list d)"

text \<open>
  \<open>min(diff_asset_dict.keys())\<close>: the keys are strings, so \<open>min\<close> compares them as
  strings, character by character; on no keys it raises \<open>ValueError\<close>.
\<close>

definition min_key :: "string list \<Rightarrow> error + string" where
  "min_key ks =
     (case ks of
        [] \<Rightarrow> Inl ValueError
      | k # ks' \<Rightarrow> Inr (fold (\<lambda>x m. if x < m then x else m) ks' k))"

text \<open>
  One pass through the body of \<open>while cash > 0\<close>: the new value of \<open>cash\<close> and the new
  working portfolio.
\<close>

definition rebalance_step :: "string list \<Rightarrow> rat \<Rightarrow> portfolio \<Rightarrow> error + rat \<times> portfolio" where
  "rebalance_step symbol_list cash working_portfolio =
     (case explore working_portfolio symbol_list [] of
        Inl e \<Rightarrow> Inl e
      | Inr diff_asset_dict \<Rightarrow>
          (case min_key (map fst diff_asset_dict) of
             Inl e \<Rightarrow> Inl e
           | Inr min_diff \<Rightarrow>
               (case map_of diff_asset_dict min_diff of
                  None \<Rightarrow> Inl AttributeError
                | Some new_working \<Rightarrow>
                    (let cost_to_buy =
                           py_round (total_value new_working - total_value working_portfolio) 2
                     in Inr (cash - cost_to_buy, new_working)))))"

text \<open>
  The \<open>while\<close> loop. It need not come to an end, so its result is an option: \<open>None\<close>
  stands for a run that never leaves the loop. At the exit it gives the three loop
  variables \<open>cash\<close>, \<open>working_portfolio\<close> and \<open>previous_portfolio\<close>.
\<close>

partial_function (option) rebalance_loop ::
  "string list \<Rightarrow> rat \<Rightarrow> portfolio \<Rightarrow> portfolio \<Rightarrow> (error + rat \<times> portfolio \<times> portfolio) option" where
  "rebalance_loop symbol_list cash working_portfolio previous_portfolio =
     (if cash > 0 then
        (case rebalance_step symbol_list cash working_portfolio of
           Inl e \<Rightarrow> Some (Inl e)
         | Inr (cash', working_portfolio') \<Rightarrow>
             rebalance_loop symbol_list cash' working_portfolio' working_portfolio)
      else Some (Inr (cash, working_portfolio, previous_portfolio)))"

declare rebalance_loop.simps [code]

text \<open>\<open>rebalance_portfolio\<close> with the budget as a parameter.\<close>

definition rebalance_with :: "rat \<Rightarrow> portfolio \<Rightarrow> (error + portfolio) option" where
  "rebalance_with budget p =
     (case rebalance_loop (map symbol (assets p)) budget p p of
        None \<Rightarrow> None
      | Some (Inl e) \<Rightarrow> Some (Inl e)
      | Some (Inr (cash, working_portfolio, previous_portfolio)) \<Rightarrow>
          Some (Inr previous_portfolio))"

definition rebalance_portfolio :: "portfolio \<Rightarrow> (error + portfolio) option" where
  "rebalance_portfolio p = rebalance_with CASH_TO_INVEST p"

section \<open>Portfolios used as examples, and the portfolios the allocator is meant for\<close>

text \<open>
  All seven classes held at a price of 1, one share of VNQ above the target weights.
\<close>

definition near_target_portfolio :: portfolio where
  "near_target_portfolio =
     PortFolio [Asset ''VTWO'' 1 1000 '''', Asset ''VOO'' 1 4000 '''', Asset ''VWO'' 1 500 '''',
                Asset ''VXUS'' 1 2500 '''', Asset ''VCIT'' 1 1000 '''', Asset ''VWOB'' 1 500 '''',
                Asset ''VNQ'' 1 501 '''']"

text \<open>A portfolio holding VTI, which the classification map does not know.\<close>

definition unclassified_portfolio :: portfolio where
  "unclassified_portfolio = PortFolio [Asset ''VOO'' 100 10 '''', Asset ''VTI'' 50 10 '''']"

text \<open>
  The end-to-end scenario of the specification: ten shares of VOO at 100 and ten shares of
  VCIT at 50.
\<close>

definition scenario_portfolio :: portfolio where
  "scenario_portfolio = PortFolio [Asset ''VOO'' 100 10 '''', Asset ''VCIT'' 50 10 '''']"

text \<open>
  A long position of 620 shares of VOO at 10 and a short position of 26 shares of VCIT at
  200: the total value is 1000.
\<close>

definition short_position_portfolio :: portfolio where
  "short_position_portfolio = PortFolio [Asset ''VOO'' 10 620 '''', Asset ''VCIT'' 200 (- 26) '''']"



section \<open>Objects and references\<close>

text \<open>
  The definitions above read a portfolio as a value. Python passes references: an
  \<open>Asset\<close> or \<open>PortFolio\<close> is an object in the store, \<open>buy_symbol\<close> writes to the object
  it found, and only \<open>copy.deepcopy\<close> makes new objects. The definitions of this section
  follow the same code with the store explicit, to say what a call leaves untouched.
  A list of assets is never changed in place by the program, so a \<open>PortFolio\<close> object
  holds the list of the references of its assets.
\<close>

type_synonym ref = nat

datatype obj = AssetObj asset | PortFolioObj "ref list" rat

text \<open>References below \<open>next_ref\<close> are in use; a new object gets \<open>next_ref\<close>.\<close>

record heap =
  objs :: "ref \<Rightarrow> obj option"
  next_ref :: ref

definition alloc :: "obj \<Rightarrow> heap \<Rightarrow> ref \<times> heap" where
  "alloc ob h = (next_ref h, \<lparr>objs = (objs h)(next_ref h \<mapsto> ob), next_ref = Suc (next_ref h)\<rparr>)"

definition store :: "ref \<Rightarrow> obj \<Rightarrow> heap \<Rightarrow> heap" where
  "store r ob h = h\<lparr>objs := (objs h)(r \<mapsto> ob)\<rparr>"

text \<open>
  Reading an attribute of \<open>Asset\<close> through a reference to anything else raises
  \<open>AttributeError\<close>.
\<close>

definition read_asset :: "ref \<Rightarrow> heap \<Rightarrow> error + asset" where
  "read_asset r h = (case objs h r of Some (AssetObj a) \<Rightarrow> Inr a | _ \<Rightarrow> Inl AttributeError)"

fun read_assets :: "ref list \<Rightarrow> heap \<Rightarrow> error + asset list" where
  "read_assets [] h = Inr []"
| "read_assets (r # rs) h =
     (case read_asset r h of
        Inl e \<Rightarrow> Inl e
      | Inr a \<Rightarrow> (case read_assets rs h of Inl e \<Rightarrow> Inl e | Inr as \<Rightarrow> Inr (a # as)))"

text \<open>The portfolio value a \<open>PortFolio\<close> object stands for in a store.\<close>

definition read_portfolio :: "ref \<Rightarrow> heap \<Rightarrow> error + portfolio" where
  "read_portfolio p h =
     (case objs h p of
        Some (PortFolioObj refs t) \<Rightarrow>
          (case read_assets refs h of
             Inl e \<Rightarrow> Inl e
           | Inr as \<Rightarrow> Inr \<lparr>assets = as, total_value = t\<rparr>)
      | _ \<Rightarrow> Inl AttributeError)"

text \<open>
  \<open>copy.deepcopy\<close> of a list of assets: every object of the list is copied to a new
  object, once (the memo maps an object already copied to its copy). The attributes of an
  \<open>Asset\<close> are numbers, strings and enumeration members, which \<open>deepcopy\<close> shares. A list
  holding anything but assets makes the constructor raise \<open>AttributeError\<close> right after
  the copy; here the copy raises it.
\<close>

fun deepcopy_refs :: "(ref \<times> ref) list \<Rightarrow> ref list \<Rightarrow> heap \<Rightarrow> (error + ref list) \<times> heap" where
  "deepcopy_refs memo [] h = (Inr [], h)"
| "deepcopy_refs memo (r # rs) h =
     (case map_of memo r of
        Some r' \<Rightarrow>
          (case deepcopy_refs memo rs h of
             (Inl e, h') \<Rightarrow> (Inl e, h')
           | (Inr rs', h') \<Rightarrow> (Inr (r' # rs'), h'))
      | None \<Rightarrow>
          (case read_asset r h of
             Inl e \<Rightarrow> (Inl e, h)
           | Inr a \<Rightarrow>
               (case deepcopy_refs ((r, next_ref h) # memo) rs (snd (alloc (AssetObj a) h)) of
                  (Inl e, h') \<Rightarrow> (Inl e, h')
                | (Inr rs', h') \<Rightarrow> (Inr (next_ref h # rs'), h'))))"

text \<open>
  \<open>copy.deepcopy\<close> of a \<open>PortFolio\<close>: a new object with a deep copy of the list and the
  same \<open>total_value\<close>; the constructor does not run.
\<close>

definition deepcopy_portfolio :: "ref \<Rightarrow> heap \<Rightarrow> (error + ref) \<times> heap" where
  "deepcopy_portfolio p h =
     (case objs h p of
        Some (PortFolioObj refs t) \<Rightarrow>
          (case deepcopy_refs [] refs h of
             (Inl e, h1) \<Rightarrow> (Inl e, h1)
           | (Inr refs', h1) \<Rightarrow> (Inr (next_ref h1), snd (alloc (PortFolioObj refs' t) h1)))
      | _ \<Rightarrow> (Inl AttributeError, h))"

definition update_total_value_at :: "ref \<Rightarrow> heap \<Rightarrow> (error + unit) \<times> heap" where
  "update_total_value_at p h =
     (case objs h p of
        Some (PortFolioObj refs t) \<Rightarrow>
          (case read_assets refs h of
             Inl e \<Rightarrow> (Inl e, h)
           | Inr as \<Rightarrow> (Inr (), store p (PortFolioObj refs (sum_list (map get_value as))) h))
      | _ \<Rightarrow> (Inl AttributeError, h))"

text \<open>\<open>PortFolio.__init__\<close> on a new object.\<close>

definition PortFolio_at :: "ref list \<Rightarrow> heap \<Rightarrow> (error + ref) \<times> heap" where
  "PortFolio_at refs h =
     (case update_total_value_at (next_ref h) (snd (alloc (PortFolioObj refs 0) h)) of
        (Inl e, h') \<Rightarrow> (Inl e, h')
      | (Inr _, h') \<Rightarrow> (Inr (next_ref h), h'))"

text \<open>\<open>get_asset\<close> returns the object itself: here, its reference.\<close>

definition get_asset_at :: "ref \<Rightarrow> string \<Rightarrow> heap \<Rightarrow> error + ref option" where
  "get_asset_at p smb h =
     (case objs h p of
        Some (PortFolioObj refs t) \<Rightarrow>
          (case read_assets refs h of
             Inl e \<Rightarrow> Inl e
           | Inr as \<Rightarrow>
               Inr (case filter (\<lambda>(r, a). symbol a = smb) (zip refs as) of
                      [] \<Rightarrow> None
                    | (r, a) # _ \<Rightarrow> Some r))
      | _ \<Rightarrow> Inl AttributeError)"

definition buy_symbol_at :: "ref \<Rightarrow> string \<Rightarrow> int \<Rightarrow> heap \<Rightarrow> (error + unit) \<times> heap" where
  "buy_symbol_at p smb shares h =
     (case get_asset_at p smb h of
        Inl e \<Rightarrow> (Inl e, h)
      | Inr None \<Rightarrow> (Inl (NoOwnedShares smb), h)
      | Inr (Some r) \<Rightarrow>
          (case read_asset r h of
             Inl e \<Rightarrow> (Inl e, h)
           | Inr a \<Rightarrow>
               update_total_value_at p
                 (store r (AssetObj (a\<lparr>quantity := quantity a + shares\<rparr>)) h)))"

definition get_difference_from_target_at :: "ref \<Rightarrow> heap \<Rightarrow> error + rat" where
  "get_difference_from_target_at p h =
     (case read_portfolio p h of Inl e \<Rightarrow> Inl e | Inr v \<Rightarrow> get_difference_from_target v)"

definition total_value_at :: "ref \<Rightarrow> heap \<Rightarrow> error + rat" where
  "total_value_at p h =
     (case objs h p of Some (PortFolioObj refs t) \<Rightarrow> Inr t | _ \<Rightarrow> Inl AttributeError)"

text \<open>The body of \<open>for symbol in symbol_list\<close>; the dictionary holds references.\<close>

definition explore_symbol_at ::
  "ref \<Rightarrow> (string \<times> ref) list \<Rightarrow> string \<Rightarrow> heap \<Rightarrow> (error + (string \<times> ref) list) \<times> heap" where
  "explore_symbol_at working_portfolio diff_asset_dict smb h =
     (case objs h working_portfolio of
        Some (PortFolioObj refs t) \<Rightarrow>
          (case deepcopy_refs [] refs h of
             (Inl e, h1) \<Rightarrow> (Inl e, h1)
           | (Inr new_assets, h1) \<Rightarrow>
               (case PortFolio_at new_assets h1 of
                  (Inl e, h2) \<Rightarrow> (Inl e, h2)
                | (Inr new_portfolio, h2) \<Rightarrow>
                    (case buy_symbol_at new_portfolio smb 1 h2 of
                       (Inl e, h3) \<Rightarrow> (Inl e, h3)
                     | (Inr _, h3) \<Rightarrow>
                         (case get_difference_from_target_at new_portfolio h3 of
                            Inl e \<Rightarrow> (Inl e, h3)
                          | Inr difference \<Rightarrow>
                              (let diff_key = str_float difference
                               in case map_of diff_asset_dict diff_key of
                                    Some _ \<Rightarrow>
                                      (case buy_symbol_at new_portfolio smb 1 h3 of
                                         (Inl e, h4) \<Rightarrow> (Inl e, h4)
                                       | (Inr _, h4) \<Rightarrow>
                                           (Inr (AList.update diff_key new_portfolio
                                                   diff_asset_dict), h4))
                                  | None \<Rightarrow>
                                      (Inr (AList.update diff_key new_portfolio
                                              diff_asset_dict), h3))))))
      | _ \<Rightarrow> (Inl AttributeError, h))"

fun explore_at ::
  "ref \<Rightarrow> string list \<Rightarrow> (string \<times> ref) list \<Rightarrow> heap \<Rightarrow> (error + (string \<times> ref) list) \<times> heap" where
  "explore_at working_portfolio [] diff_asset_dict h = (Inr diff_asset_dict, h)"
| "explore_at working_portfolio (smb # symbol_list) diff_asset_dict h =
     (case explore_symbol_at working_portfolio diff_asset_dict smb h of
        (Inl e, h') \<Rightarrow> (Inl e, h')
      | (Inr d, h') \<Rightarrow> explore_at working_portfolio symbol_list d h')"

definition rebalance_step_at ::
  "string list \<Rightarrow> rat \<Rightarrow> ref \<Rightarrow> heap \<Rightarrow> (error + rat \<times> ref) \<times> heap" where
  "rebalance_step_at symbol_list cash working_portfolio h =
     (case explore_at working_portfolio symbol_list [] h of
        (Inl e, h') \<Rightarrow> (Inl e, h')
      | (Inr diff_asset_dict, h') \<Rightarrow>
          (case min_key (map fst diff_asset_dict) of
             Inl e \<Rightarrow> (Inl e, h')
           | Inr min_diff \<Rightarrow>
               (case map_of diff_asset_dict min_diff of
                  None \<Rightarrow> (Inl AttributeError, h')
                | Some new_working \<Rightarrow>
                    (case total_value_at new_working h' of
                       Inl e \<Rightarrow> (Inl e, h')
                     | Inr new_total \<Rightarrow>
                         (case total_value_at working_portfolio h' of
                            Inl e \<Rightarrow> (Inl e, h')
                          | Inr old_total \<Rightarrow>
                              (Inr (cash - py_round (new_total - old_total) 2, new_working),
                               h'))))))"

text \<open>
  The \<open>while\<close> loop, run for at most a given number of passes. The outcome is \<open>None\<close>
  while the loop is still running; the store is the one reached so far in every case.
\<close>

fun rebalance_loop_at ::
  "nat \<Rightarrow> string list \<Rightarrow> rat \<Rightarrow> ref \<Rightarrow> ref \<Rightarrow> heap \<Rightarrow> (error + rat \<times> ref \<times> ref) option \<times> heap" where
  "rebalance_loop_at 0 symbol_list cash working_portfolio previous_portfolio h = (None, h)"
| "rebalance_loop_at (Suc n) symbol_list cash working_portfolio previous_portfolio h =
     (if cash > 0 then
        (case rebalance_step_at symbol_list cash working_portfolio h of
           (Inl e, h') \<Rightarrow> (Some (Inl e), h')
         | (Inr (cash', working_portfolio'), h') \<Rightarrow>
             rebalance_loop_at n symbol_list cash' working_portfolio' working_portfolio h')
      else (Some (Inr (cash, working_portfolio, previous_portfolio)), h))"

text \<open>
  \<open>rebalance_portfolio\<close> on the object at a reference, with the budget as a parameter:
  the outcome (the reference returned, or the exception) and the store.
\<close>

definition rebalance_with_at ::
  "nat \<Rightarrow> rat \<Rightarrow> ref \<Rightarrow> heap \<Rightarrow> (error + ref) option \<times> heap" where
  "rebalance_with_at n budget portfolio h =
     (case deepcopy_portfolio portfolio h of
        (Inl e, h1) \<Rightarrow> (Some (Inl e), h1)
      | (Inr working_portfolio, h1) \<Rightarrow>
          (case read_portfolio portfolio h1 of
             Inl e \<Rightarrow> (Some (Inl e), h1)
           | Inr v \<Rightarrow>
               (case rebalance_loop_at n (map symbol (assets v)) budget
                       working_portfolio working_portfolio h1 of
                  (None, h') \<Rightarrow> (None, h')
                | (Some (Inl e), h') \<Rightarrow> (Some (Inl e), h')
                | (Some (Inr (cash, working_portfolio', previous_portfolio)), h') \<Rightarrow>
                    (Some (Inr previous_portfolio), h'))))"

definition rebalance_portfolio_at :: "nat \<Rightarrow> ref \<Rightarrow> heap \<Rightarrow> (error + ref) option \<times> heap" where
  "rebalance_portfolio_at n portfolio h = rebalance_with_at n CASH_TO_INVEST portfolio h"

text \<open>
  A store extends another when it keeps every object the other has in use as it is.
\<close>

definition heap_extends :: "heap \<Rightarrow> heap \<Rightarrow> bool" where
  "heap_extends h h' \<longleftrightarrow> next_ref h \<le> next_ref h' \<and> (\<forall>r<next_ref h. objs h' r = objs h r)"

text \<open>The scenario portfolio as objects: the two assets at 0 and 1, the portfolio at 2.\<close>

definition scenario_heap :: heap where
  "scenario_heap =
     \<lparr>objs = [0 \<mapsto> AssetObj (Asset ''VOO'' 100 10 ''''),
              1 \<mapsto> AssetObj (Asset ''VCIT'' 50 10 ''''),
              2 \<mapsto> PortFolioObj [0, 1] 1500],
      next_ref = 3\<rparr>"

section \<open>Lookup and purchase\<close>

lemma get_asset_None_iff: "get_asset p s = None \<longleftrightarrow> (\<forall>a\<in>set (assets p). symbol a \<noteq> s)"
proof (cases "filter (\<lambda>a. symbol a = s) (assets p)")
  case Nil
  then show ?thesis by (simp add: get_asset_def filter_empty_conv)
next
  case (Cons x xs)
  then have "filter (\<lambda>a. symbol a = s) (assets p) \<noteq> []" by simp
  then have "\<exists>a\<in>set (assets p). symbol a = s" by (simp add: filter_empty_conv)
  with Cons show ?thesis by (auto simp: get_asset_def)
qed

lemma get_asset_Some_first:
  "get_asset p s = Some a \<Longrightarrow>
     \<exists>i<length (assets p). assets p ! i = a \<and> symbol a = s \<and> (\<forall>j<i. symbol (assets p ! j) \<noteq> s)"
proof -
  assume h: "get_asset p s = Some a"
  have "\<And>xs. filter (\<lambda>a. symbol a = s) xs = a # ys \<Longrightarrow>
     \<exists>i<length xs. xs ! i = a \<and> symbol a = s \<and> (\<forall>j<i. symbol (xs ! j) \<noteq> s)" for ys
  proof -
    fix xs show "filter (\<lambda>a. symbol a = s) xs = a # ys \<Longrightarrow>
     \<exists>i<length xs. xs ! i = a \<and> symbol a = s \<and> (\<forall>j<i. symbol (xs ! j) \<noteq> s)"
    proof (induction xs)
      case Nil then show ?case by simp
    next
      case (Cons x xs)
      show ?case
      proof (cases "symbol x = s")
        case True
        with Cons.prems have "x = a" by simp
        with True show ?thesis by (intro exI[of _ 0]) simp
      next
        case False
        with Cons obtain i where i: "i < length xs" "xs ! i = a" "symbol a = s" "\<forall>j<i. symbol (xs ! j) \<noteq> s"
          by auto
        show ?thesis
        proof (intro exI[of _ "Suc i"] conjI allI impI)
          fix j assume "j < Suc i" then show "symbol ((x # xs) ! j) \<noteq> s"
            using False i(4) by (cases j) auto
        qed (use i in auto)
      qed
    qed
  qed
  with h show ?thesis by (auto simp: get_asset_def split: list.splits)
qed

lemma add_shares_first:
  "i < length xs \<Longrightarrow> symbol (xs ! i) = s \<Longrightarrow> (\<forall>j<i. symbol (xs ! j) \<noteq> s) \<Longrightarrow>
   add_shares s n xs = xs[i := (xs ! i)\<lparr>quantity := quantity (xs ! i) + n\<rparr>]"
proof (induction xs arbitrary: i)
  case Nil then show ?case by simp
next
  case (Cons x xs)
  show ?case
  proof (cases i)
    case 0 with Cons.prems show ?thesis by simp
  next
    case (Suc k)
    with Cons.prems have "symbol x \<noteq> s" by auto
    moreover from Cons.prems Suc have "k < length xs" "symbol (xs ! k) = s" "\<forall>j<k. symbol (xs ! j) \<noteq> s"
      by auto
    ultimately show ?thesis using Cons.IH[of k] Suc by simp
  qed
qed


text \<open>
  C5. \<open>buy_symbol\<close> raises exactly when no asset of the portfolio has the symbol, and
  then leaves the portfolio as it was. When an asset has the symbol, the call returns
  normally, the quantity of the first such asset has grown by the share count, every other
  entry of the list is as before, and \<open>total_value\<close> is the recomputed sum of the values.
\<close>

theorem buy_symbol_raises_iff:
  "((\<exists>e. fst (buy_symbol p s n) = Inl e) \<longleftrightarrow> (\<forall>a\<in>set (assets p). symbol a \<noteq> s))
   \<and> ((\<forall>a\<in>set (assets p). symbol a \<noteq> s) \<longrightarrow> buy_symbol p s n = (Inl (NoOwnedShares s), p))
   \<and> ((\<exists>a\<in>set (assets p). symbol a = s) \<longrightarrow>
        (\<exists>i<length (assets p). symbol (assets p ! i) = s \<and> (\<forall>j<i. symbol (assets p ! j) \<noteq> s) \<and>
           fst (buy_symbol p s n) = Inr () \<and>
           assets (snd (buy_symbol p s n))
             = (assets p)[i := (assets p ! i)\<lparr>quantity := quantity (assets p ! i) + n\<rparr>] \<and>
           total_value (snd (buy_symbol p s n))
             = sum_list (map get_value (assets (snd (buy_symbol p s n))))))"
proof (cases "get_asset p s")
  case None
  then have no: "\<forall>a\<in>set (assets p). symbol a \<noteq> s" by (simp add: get_asset_None_iff)
  from None have "buy_symbol p s n = (Inl (NoOwnedShares s), p)" by (simp add: buy_symbol_def)
  with no show ?thesis by auto
next
  case (Some a)
  then have ex: "\<not> (\<forall>a\<in>set (assets p). symbol a \<noteq> s)"
    using get_asset_None_iff[of p s] by simp
  from get_asset_Some_first[OF Some] obtain i where i: "i < length (assets p)" "assets p ! i = a"
      "symbol a = s" "\<forall>j<i. symbol (assets p ! j) \<noteq> s" by blast
  from i have upd: "add_shares s n (assets p)
      = (assets p)[i := (assets p ! i)\<lparr>quantity := quantity (assets p ! i) + n\<rparr>]"
    by (intro add_shares_first) auto
  from Some have b: "buy_symbol p s n
      = (Inr (), update_total_value (p\<lparr>assets := add_shares s n (assets p)\<rparr>))"
    by (simp add: buy_symbol_def)
  have "\<exists>i<length (assets p). symbol (assets p ! i) = s \<and> (\<forall>j<i. symbol (assets p ! j) \<noteq> s) \<and>
           fst (buy_symbol p s n) = Inr () \<and>
           assets (snd (buy_symbol p s n))
             = (assets p)[i := (assets p ! i)\<lparr>quantity := quantity (assets p ! i) + n\<rparr>] \<and>
           total_value (snd (buy_symbol p s n))
             = sum_list (map get_value (assets (snd (buy_symbol p s n))))"
    using i upd b by (intro exI[of _ i]) (simp add: update_total_value_def)
  moreover have "fst (buy_symbol p s n) = Inr ()" using b by simp
  ultimately show ?thesis using ex by auto
qed

theorem buy_symbol_raises_iff_witness:
  "buy_symbol (PortFolio [Asset ''VOO'' 100 10 '''', Asset ''vcit'' 50 10 '''']) ''VOO'' 3
     = (Inr (), \<lparr>assets = [(Asset ''VOO'' 100 10 '''')\<lparr>quantity := 13\<rparr>, Asset ''VCIT'' 50 10 ''''],
                  total_value = 1800\<rparr>)
   \<and> (\<exists>a\<in>set (assets (PortFolio [Asset ''VOO'' 100 10 '''', Asset ''vcit'' 50 10 ''''])).
         symbol a = ''VOO'')
   \<and> list_all (\<lambda>a. symbol a \<noteq> ''voo'')
         (assets (PortFolio [Asset ''VOO'' 100 10 '''', Asset ''vcit'' 50 10 '''']))
   \<and> buy_symbol (PortFolio [Asset ''VOO'' 100 10 '''', Asset ''vcit'' 50 10 '''']) ''voo'' 3
     = (Inl (NoOwnedShares ''voo''), PortFolio [Asset ''VOO'' 100 10 '''', Asset ''vcit'' 50 10 ''''])"
proof -
  have "buy_symbol (PortFolio [Asset ''VOO'' 100 10 '''', Asset ''vcit'' 50 10 '''']) ''VOO'' 3
     = (Inr (), \<lparr>assets = [(Asset ''VOO'' 100 10 '''')\<lparr>quantity := 13\<rparr>, Asset ''VCIT'' 50 10 ''''],
                  total_value = 1800\<rparr>)"
    by code_simp
  moreover have "\<exists>a\<in>set (assets (PortFolio [Asset ''VOO'' 100 10 '''', Asset ''vcit'' 50 10 ''''])).
         symbol a = ''VOO''"
    by code_simp
  moreover have no: "\<forall>a\<in>set (assets (PortFolio [Asset ''VOO'' 100 10 '''', Asset ''vcit'' 50 10 ''''])).
         symbol a \<noteq> ''voo''"
    by code_simp
  moreover have "buy_symbol (PortFolio [Asset ''VOO'' 100 10 '''', Asset ''vcit'' 50 10 '''']) ''voo'' 3
     = (Inl (NoOwnedShares ''voo''), PortFolio [Asset ''VOO'' 100 10 '''', Asset ''vcit'' 50 10 ''''])"
    using no buy_symbol_raises_iff
          [of "PortFolio [Asset ''VOO'' 100 10 '''', Asset ''vcit'' 50 10 '''']" "''voo''" 3]
    by blast
  ultimately show ?thesis by (simp add: list_all_iff)
qed



lemma upper_char_idem: "upper_char (upper_char c) = upper_char c"
proof (cases "97 \<le> (of_char c :: nat) \<and> (of_char c :: nat) \<le> 122")
  case True
  then have "(of_char c - 32 :: nat) < 256" by arith
  then have m: "(of_char c - 32 :: nat) mod 256 = of_char c - 32" by (rule mod_less)
  have "\<not> (97 \<le> (of_char c - 32 :: nat) \<and> (of_char c - 32 :: nat) \<le> 122)"
    using True by arith
  with True m show ?thesis by (auto simp: upper_char_def Let_def)
next
  case False
  then have "upper_char c = c" by (auto simp: upper_char_def Let_def)
  then show ?thesis by simp
qed

lemma upper_idem: "upper (upper s) = upper s"
  by (simp add: upper_def upper_char_idem)

text \<open>
  C10. The constructor stores the symbol in upper case and \<open>get_asset\<close> compares with
  equality. In a portfolio of constructed assets a query that is not its own upper-case
  form matches nothing: \<open>get_asset\<close> returns \<open>None\<close> and \<open>buy_symbol\<close> raises, leaving
  the portfolio alone. The upper-case form of the symbol an asset was built from is found.
\<close>

theorem get_asset_case_sensitive:
  assumes "\<forall>a\<in>set (assets p). \<exists>s0 pr0 q0 d0. a = Asset s0 pr0 q0 d0"
      and "Asset S pr q d \<in> set (assets p)"
      and "s' \<noteq> upper s'"
  shows "get_asset p s' = None
     \<and> buy_symbol p s' n = (Inl (NoOwnedShares s'), p)
     \<and> (\<exists>a. get_asset p (upper S) = Some a \<and> symbol a = upper S)
     \<and> fst (buy_symbol p (upper S) n) = Inr ()"
proof -
  have up: "\<forall>a\<in>set (assets p). symbol a = upper (symbol a)"
  proof
    fix a assume "a \<in> set (assets p)"
    with assms(1) obtain s0 pr0 q0 d0 where "a = Asset s0 pr0 q0 d0" by blast
    then show "symbol a = upper (symbol a)" by (simp add: Asset_def upper_idem)
  qed
  have no: "\<forall>a\<in>set (assets p). symbol a \<noteq> s'"
    using up assms(3) by metis
  then have n1: "get_asset p s' = None" by (simp add: get_asset_None_iff)
  then have n2: "buy_symbol p s' n = (Inl (NoOwnedShares s'), p)" by (simp add: buy_symbol_def)
  have "symbol (Asset S pr q d) = upper S" by (simp add: Asset_def)
  with assms(2) have "\<not> (\<forall>a\<in>set (assets p). symbol a \<noteq> upper S)" by blast
  then have "get_asset p (upper S) \<noteq> None" by (simp add: get_asset_None_iff)
  then obtain a where a: "get_asset p (upper S) = Some a" by blast
  from get_asset_Some_first[OF a] have sa: "symbol a = upper S" by blast
  from a have "fst (buy_symbol p (upper S) n) = Inr ()" by (simp add: buy_symbol_def)
  with n1 n2 a sa show ?thesis by blast
qed

theorem get_asset_case_sensitive_witness:
  "Asset ''voo'' 100 10 '''' \<in> set (assets (PortFolio [Asset ''voo'' 100 10 '''', Asset ''Vcit'' 50 10 '''']))
   \<and> ''voo'' \<noteq> upper ''voo''
   \<and> get_asset (PortFolio [Asset ''voo'' 100 10 '''', Asset ''Vcit'' 50 10 '''']) ''voo'' = None
   \<and> get_asset (PortFolio [Asset ''voo'' 100 10 '''', Asset ''Vcit'' 50 10 '''']) ''VOO''
       = Some (Asset ''voo'' 100 10 '''')"
proof -
  have h1: "\<forall>a\<in>set (assets (PortFolio [Asset ''voo'' 100 10 '''', Asset ''Vcit'' 50 10 ''''])).
       \<exists>s0 pr0 q0 d0. a = Asset s0 pr0 q0 d0"
    by (auto simp: PortFolio_def update_total_value_def)
  have h2: "Asset ''voo'' 100 10 '''' \<in> set (assets (PortFolio [Asset ''voo'' 100 10 '''', Asset ''Vcit'' 50 10 '''']))"
    by (simp add: PortFolio_def update_total_value_def)
  have h3: "''voo'' \<noteq> upper ''voo''" by code_simp
  from get_asset_case_sensitive[OF h1 h2 h3, of 1]
  have "get_asset (PortFolio [Asset ''voo'' 100 10 '''', Asset ''Vcit'' 50 10 '''']) ''voo'' = None"
    by blast
  moreover have "get_asset (PortFolio [Asset ''voo'' 100 10 '''', Asset ''Vcit'' 50 10 '''']) ''VOO''
       = Some (Asset ''voo'' 100 10 '''')"
    by code_simp
  ultimately show ?thesis using h2 h3 by blast
qed

lemma round_half_even_close: "\<bar>of_int (round_half_even y) - y\<bar> \<le> 1 / 2"
proof -
  have "of_int \<lfloor>y\<rfloor> \<le> y" "y < of_int \<lfloor>y\<rfloor> + 1" by linarith+
  then show ?thesis
    by (auto simp: round_half_even_def Let_def)
qed

lemma round_half_even_nonneg: "0 \<le> y \<Longrightarrow> 0 \<le> round_half_even y"
proof -
  assume "0 \<le> y"
  then have "0 \<le> \<lfloor>y\<rfloor>" by simp
  then show ?thesis by (auto simp: round_half_even_def Let_def)
qed

lemma py_round_nonneg: "0 \<le> x \<Longrightarrow> 0 \<le> py_round x n"
  by (simp add: py_round_def round_half_even_nonneg)

lemma py_round_3_zero: "py_round x 3 = 0 \<Longrightarrow> \<bar>x\<bar> \<le> 1 / 2000"
proof -
  assume "py_round x 3 = 0"
  then have "round_half_even (x * 1000) = 0" by (simp add: py_round_def)
  with round_half_even_close[of "x * 1000"] have "\<bar>x * 1000\<bar> \<le> 1 / 2" by simp
  then show ?thesis by (simp add: abs_mult) 
qed

lemma get_percentage_target_Some: "\<exists>t. get_percentage_target (Some c) = Inr t"
  by (cases c; hypsubst; rule exI; rule get_percentage_target.simps)

lemma difference_loop_ok:
  assumes "total_value p \<noteq> 0" and "\<forall>a\<in>set as. classification a \<noteq> None"
  shows "\<exists>d. difference_loop p as acc = Inr d \<and> acc \<le> d \<and>
     (\<forall>a\<in>set as. \<exists>pc pt. get_percent_classification p (classification a) = Inr pc
        \<and> get_percentage_target (classification a) = Inr pt \<and> \<bar>pc - pt\<bar> \<le> d - acc)"
  using assms(2)
proof (induction as arbitrary: acc)
  case Nil
  then show ?case by simp
next
  case (Cons a as)
  from Cons.prems obtain c where c: "classification a = Some c" by auto
  obtain pt where pt: "get_percentage_target (classification a) = Inr pt"
    using c get_percentage_target_Some[of c] by auto
  obtain pc where pc: "get_percent_classification p (classification a) = Inr pc"
    using assms(1) by (simp add: get_percent_classification_def)
  from Cons.prems have "\<forall>a\<in>set as. classification a \<noteq> None" by simp
  from Cons.IH[OF this, of "acc + \<bar>pc - pt\<bar>"] obtain d where
    d: "difference_loop p as (acc + \<bar>pc - pt\<bar>) = Inr d" "acc + \<bar>pc - pt\<bar> \<le> d"
       "\<forall>a\<in>set as. \<exists>pc' pt'. get_percent_classification p (classification a) = Inr pc'
        \<and> get_percentage_target (classification a) = Inr pt' \<and> \<bar>pc' - pt'\<bar> \<le> d - (acc + \<bar>pc - pt\<bar>)"
    by blast
  have 1: "difference_loop p (a # as) acc = Inr d" using pc pt d(1) by simp
  have 2: "acc \<le> d" using d(2) by linarith
  have 3: "\<bar>pc - pt\<bar> \<le> d - acc" using d(2) by linarith
  have 4: "\<forall>b\<in>set as. \<exists>pc' pt'. get_percent_classification p (classification b) = Inr pc'
        \<and> get_percentage_target (classification b) = Inr pt' \<and> \<bar>pc' - pt'\<bar> \<le> d - acc"
  proof
    fix b assume "b \<in> set as"
    with d(3) obtain pc' pt' where "get_percent_classification p (classification b) = Inr pc'"
        "get_percentage_target (classification b) = Inr pt'" "\<bar>pc' - pt'\<bar> \<le> d - (acc + \<bar>pc - pt\<bar>)"
      by blast
    moreover have "d - (acc + \<bar>pc - pt\<bar>) \<le> d - acc" by simp
    ultimately show "\<exists>pc' pt'. get_percent_classification p (classification b) = Inr pc'
        \<and> get_percentage_target (classification b) = Inr pt' \<and> \<bar>pc' - pt'\<bar> \<le> d - acc"
      by (meson order_trans)
  qed
  show ?case using 1 2 3 4 pc pt by auto
qed

text \<open>
  C7 (as amended). For a portfolio with positive \<open>total_value\<close> whose assets all have a
  class, \<open>get_difference_from_target\<close> returns a score that is not negative. The score is
  the sum of the deviations rounded to three decimals, so it is 0 only when, for every
  held asset, the percentage of its class is within 0.0005 of the target of that class.
  Equality with the target is not implied.
\<close>

theorem difference_nonneg_zero_close:
  assumes "0 < total_value p" and "\<forall>a\<in>set (assets p). classification a \<noteq> None"
  shows "\<exists>d. get_difference_from_target p = Inr d \<and> 0 \<le> d \<and>
     (d = 0 \<longrightarrow>
        (\<forall>a\<in>set (assets p). \<exists>pc pt. get_percent_classification p (classification a) = Inr pc
           \<and> get_percentage_target (classification a) = Inr pt \<and> \<bar>pc - pt\<bar> \<le> 1 / 2000))"
proof -
  from assms(1) have "total_value p \<noteq> 0" by simp
  from difference_loop_ok[OF this assms(2), of 0] obtain s where
    s: "difference_loop p (assets p) 0 = Inr s" "0 \<le> s"
       "\<forall>a\<in>set (assets p). \<exists>pc pt. get_percent_classification p (classification a) = Inr pc
        \<and> get_percentage_target (classification a) = Inr pt \<and> \<bar>pc - pt\<bar> \<le> s"
    by auto
  have g: "get_difference_from_target p = Inr (py_round s 3)"
    using s(1) by (simp add: get_difference_from_target_def)
  have n: "0 \<le> py_round s 3" using s(2) by (rule py_round_nonneg)
  have z: "py_round s 3 = 0 \<longrightarrow>
        (\<forall>a\<in>set (assets p). \<exists>pc pt. get_percent_classification p (classification a) = Inr pc
           \<and> get_percentage_target (classification a) = Inr pt \<and> \<bar>pc - pt\<bar> \<le> 1 / 2000)"
  proof (intro impI ballI)
    fix a assume "py_round s 3 = 0" and a: "a \<in> set (assets p)"
    then have "\<bar>s\<bar> \<le> 1 / 2000" using py_round_3_zero by blast
    then have le: "s \<le> 1 / 2000" by simp
    from s(3) a obtain pc pt where "get_percent_classification p (classification a) = Inr pc"
        "get_percentage_target (classification a) = Inr pt" "\<bar>pc - pt\<bar> \<le> s" by blast
    with le show "\<exists>pc pt. get_percent_classification p (classification a) = Inr pc
           \<and> get_percentage_target (classification a) = Inr pt \<and> \<bar>pc - pt\<bar> \<le> 1 / 2000"
      by (meson order_trans)
  qed
  from g n z show ?thesis by blast
qed

theorem difference_zero_counterexample:
  "0 < total_value near_target_portfolio
   \<and> list_all (\<lambda>a. classification a \<noteq> None) (assets near_target_portfolio)
   \<and> get_difference_from_target near_target_portfolio = Inr 0
   \<and> get_percent_classification near_target_portfolio (Some REAL_ESTATE) = Inr (501 / 10001)
   \<and> get_percentage_target (Some REAL_ESTATE) = Inr (5 / 100)
   \<and> (501 / 10001 :: rat) \<noteq> 5 / 100"
  by code_simp

theorem difference_nonneg_zero_close_witness:
  "get_difference_from_target near_target_portfolio = Inr 0
   \<and> (\<exists>pc pt. get_percent_classification near_target_portfolio (Some REAL_ESTATE) = Inr pc
         \<and> get_percentage_target (Some REAL_ESTATE) = Inr pt \<and> \<bar>pc - pt\<bar> \<le> 1 / 2000)"
proof -
  have h1: "0 < total_value near_target_portfolio" by code_simp
  have h2: "\<forall>a\<in>set (assets near_target_portfolio). classification a \<noteq> None" by code_simp
  have z: "get_difference_from_target near_target_portfolio = Inr 0" by code_simp
  have m: "Asset ''VNQ'' 1 501 '''' \<in> set (assets near_target_portfolio)" by code_simp
  have c: "classification (Asset ''VNQ'' 1 501 '''') = Some REAL_ESTATE" by code_simp
  from difference_nonneg_zero_close[OF h1 h2] z
  have "\<forall>a\<in>set (assets near_target_portfolio).
          \<exists>pc pt. get_percent_classification near_target_portfolio (classification a) = Inr pc
            \<and> get_percentage_target (classification a) = Inr pt \<and> \<bar>pc - pt\<bar> \<le> 1 / 2000"
    by auto
  with m c have "\<exists>pc pt. get_percent_classification near_target_portfolio (Some REAL_ESTATE) = Inr pc
         \<and> get_percentage_target (Some REAL_ESTATE) = Inr pt \<and> \<bar>pc - pt\<bar> \<le> 1 / 2000"
    by force
  with z show ?thesis by blast
qed

lemma difference_loop_unclassified:
  assumes "total_value p \<noteq> 0" and "a \<in> set as" and "classification a = None"
  shows "difference_loop p as acc = Inl (NoPercentageTarget None)"
  using assms(2)
proof (induction as arbitrary: acc)
  case Nil
  then show ?case by simp
next
  case (Cons b bs)
  have pc: "\<exists>pc. get_percent_classification p (classification b) = Inr pc"
    using assms(1) by (simp add: get_percent_classification_def)
  show ?case
  proof (cases "classification b")
    case None
    with pc show ?thesis by auto
  next
    case (Some c)
    with Cons.prems assms(3) have "a \<in> set bs" by auto
    from Cons.IH[OF this] pc Some get_percentage_target_Some[of c] show ?thesis by auto
  qed
qed

lemma difference_loop_zero_total:
  "total_value p = 0 \<Longrightarrow> as \<noteq> [] \<Longrightarrow> difference_loop p as acc = Inl ZeroDivisionError"
  by (cases as) (simp_all add: get_percent_classification_def)

lemma filter_classified_class:
  "filter (\<lambda>a. classification a = Some c) (filter (\<lambda>a. classification a \<noteq> None) as)
     = filter (\<lambda>a. classification a = Some c) as"
  by (induction as) auto

lemma sum_list_split_classified:
  "sum_list (map get_value as)
     = sum_list (map get_value (filter (\<lambda>a. classification a \<noteq> None) as))
       + sum_list (map get_value (filter (\<lambda>a. classification a = None) as))"
  by (induction as) auto

text \<open>
  C4 (as amended). For a portfolio holding an asset without a class, computing the
  deviation score raises: the \<open>RuntimeError\<close> of \<open>get_percentage_target\<close> when
  \<open>total_value\<close> is not 0, \<open>ZeroDivisionError\<close> when it is. The percentage of each of the
  seven classes is computed as if the unclassified assets were not in the list, and the
  constructor's \<open>total_value\<close> counts classified and unclassified assets alike.
\<close>

theorem unclassified_asset_raises:
  assumes "a \<in> set (assets p)" and "classification a = None"
  shows "(total_value p \<noteq> 0 \<longrightarrow> get_difference_from_target p = Inl (NoPercentageTarget None))
     \<and> (total_value p = 0 \<longrightarrow> get_difference_from_target p = Inl ZeroDivisionError)
     \<and> (\<forall>c. get_percent_classification p (Some c)
            = get_percent_classification
                (p\<lparr>assets := filter (\<lambda>a. classification a \<noteq> None) (assets p)\<rparr>) (Some c))
     \<and> total_value (PortFolio (assets p))
          = sum_list (map get_value (filter (\<lambda>a. classification a \<noteq> None) (assets p)))
            + sum_list (map get_value (filter (\<lambda>a. classification a = None) (assets p)))"
proof -
  have 1: "total_value p \<noteq> 0 \<longrightarrow> get_difference_from_target p = Inl (NoPercentageTarget None)"
    using difference_loop_unclassified[OF _ assms] by (simp add: get_difference_from_target_def)
  from assms(1) have "assets p \<noteq> []" by auto
  then have 2: "total_value p = 0 \<longrightarrow> get_difference_from_target p = Inl ZeroDivisionError"
    using difference_loop_zero_total[of p "assets p" 0] by (simp add: get_difference_from_target_def)
  have 3: "\<forall>c. get_percent_classification p (Some c)
            = get_percent_classification
                (p\<lparr>assets := filter (\<lambda>a. classification a \<noteq> None) (assets p)\<rparr>) (Some c)"
  proof
    fix c
    have "assets (p\<lparr>assets := filter (\<lambda>a. classification a \<noteq> None) (assets p)\<rparr>)
            = filter (\<lambda>a. classification a \<noteq> None) (assets p)"
         "total_value (p\<lparr>assets := filter (\<lambda>a. classification a \<noteq> None) (assets p)\<rparr>)
            = total_value p"
      by simp_all
    then show "get_percent_classification p (Some c)
            = get_percent_classification
                (p\<lparr>assets := filter (\<lambda>a. classification a \<noteq> None) (assets p)\<rparr>) (Some c)"
      unfolding get_percent_classification_def by (simp only: filter_classified_class)
  qed
  have 4: "total_value (PortFolio (assets p))
          = sum_list (map get_value (filter (\<lambda>a. classification a \<noteq> None) (assets p)))
            + sum_list (map get_value (filter (\<lambda>a. classification a = None) (assets p)))"
    using sum_list_split_classified[of "assets p"] by (simp add: PortFolio_def update_total_value_def)
  from 1 2 3 4 show ?thesis by blast
qed

theorem unclassified_asset_counterexample:
  "Asset ''VTI'' 50 10 '''' \<in> set (assets unclassified_portfolio)
   \<and> classification (Asset ''VTI'' 50 10 '''') = None
   \<and> get_difference_from_target unclassified_portfolio = Inl (NoPercentageTarget None)"
  by code_simp

theorem unclassified_asset_raises_witness:
  "total_value unclassified_portfolio = 1500
   \<and> get_difference_from_target unclassified_portfolio = Inl (NoPercentageTarget None)
   \<and> get_percent_classification unclassified_portfolio (Some STOCKS_USA_SP500) = Inr (1000 / 1500)"
proof -
  have h1: "Asset ''VTI'' 50 10 '''' \<in> set (assets unclassified_portfolio)" by code_simp
  have h2: "classification (Asset ''VTI'' 50 10 '''') = None" by code_simp
  have t: "total_value unclassified_portfolio = 1500" by code_simp
  have pc: "get_percent_classification unclassified_portfolio (Some STOCKS_USA_SP500) = Inr (1000 / 1500)"
    by code_simp
  from unclassified_asset_raises[OF h1 h2] t
  have "get_difference_from_target unclassified_portfolio = Inl (NoPercentageTarget None)"
    by simp
  with t pc show ?thesis by blast
qed

lemma explore_append:
  "explore wp (xs @ ys) d =
     (case explore wp xs d of Inl e \<Rightarrow> Inl e | Inr d' \<Rightarrow> explore wp ys d')"
  by (induction xs arbitrary: d) (auto split: sum.splits)

lemma filter_add_shares:
  "filter (\<lambda>a. symbol a = s) (add_shares s n as) =
     (case filter (\<lambda>a. symbol a = s) as of
        [] \<Rightarrow> []
      | a # r \<Rightarrow> a\<lparr>quantity := quantity a + n\<rparr> # r)"
  by (induction as) (auto split: list.splits)

lemma get_asset_buy_symbol:
  assumes "get_asset p s = Some a"
  shows "\<exists>p'. buy_symbol p s n = (Inr (), p')
           \<and> get_asset p' s = Some (a\<lparr>quantity := quantity a + n\<rparr>)"
proof -
  have b: "buy_symbol p s n
      = (Inr (), update_total_value (p\<lparr>assets := add_shares s n (assets p)\<rparr>))"
    using assms by (simp add: buy_symbol_def)
  have "get_asset (update_total_value (p\<lparr>assets := add_shares s n (assets p)\<rparr>)) s
      = Some (a\<lparr>quantity := quantity a + n\<rparr>)"
    using assms
    by (auto simp: get_asset_def update_total_value_def filter_add_shares split: list.splits)
  with b show ?thesis by blast
qed

lemma map_fst_update_present:
  "map_of d k = Some v \<Longrightarrow> map fst (AList.update k w d) = map fst d"
  by (induction d) (auto split: if_splits)

text \<open>
  C2. In one pass of the inner loop, when the symbol now processed gives a one-share
  purchase whose printed score is already a key of the candidate mapping built from the
  symbols before it, a second share of the same symbol is bought and the portfolio with
  the two shares is stored under that key, in place of the portfolio recorded before; the
  keys of the mapping stay as they were.
\<close>

theorem explore_tie_buys_second_share:
  assumes "explore wp pre [] = Inr d"
      and "buy_symbol (PortFolio (assets wp)) s 1 = (Inr (), np)"
      and "get_difference_from_target np = Inr sc"
      and "map_of d (str_float sc) = Some earlier"
  shows "\<exists>np2. buy_symbol np s 1 = (Inr (), np2)
     \<and> explore wp (pre @ s # post) [] = explore wp post (AList.update (str_float sc) np2 d)
     \<and> map_of (AList.update (str_float sc) np2 d) (str_float sc) = Some np2
     \<and> map fst (AList.update (str_float sc) np2 d) = map fst d
     \<and> (\<exists>a0. get_asset wp s = Some a0
           \<and> get_asset np2 s = Some (a0\<lparr>quantity := quantity a0 + 2\<rparr>))"
proof -
  have "get_asset (PortFolio (assets wp)) s \<noteq> None"
    using assms(2) by (auto simp: buy_symbol_def split: option.splits)
  then obtain a0 where a0: "get_asset (PortFolio (assets wp)) s = Some a0" by blast
  then have a0w: "get_asset wp s = Some a0"
    by (simp add: get_asset_def PortFolio_def update_total_value_def)
  from get_asset_buy_symbol[OF a0, of 1] assms(2)
  have a1: "get_asset np s = Some (a0\<lparr>quantity := quantity a0 + 1\<rparr>)" by simp
  from get_asset_buy_symbol[OF a1, of 1] obtain np2 where
    np2: "buy_symbol np s 1 = (Inr (), np2)"
         "get_asset np2 s = Some (a0\<lparr>quantity := quantity a0 + 1 + 1\<rparr>)"
    by auto
  have a2: "get_asset np2 s = Some (a0\<lparr>quantity := quantity a0 + 2\<rparr>)"
    using np2(2) by simp
  have step: "explore_symbol wp d s = Inr (AList.update (str_float sc) np2 d)"
    using assms(2,3,4) np2(1) by (simp add: explore_symbol_def)
  have "explore wp (pre @ s # post) [] = explore wp post (AList.update (str_float sc) np2 d)"
    using assms(1) step by (simp add: explore_append)
  moreover have "map_of (AList.update (str_float sc) np2 d) (str_float sc) = Some np2"
    by (simp add: update_conv')
  moreover have "map fst (AList.update (str_float sc) np2 d) = map fst d"
    using assms(4) by (rule map_fst_update_present)
  ultimately show ?thesis using np2(1) a0w a2 by blast
qed

theorem explore_tie_buys_second_share_witness:
  "explore scenario_portfolio [''VOO''] []
     = Inr [(''0.5'', snd (buy_symbol scenario_portfolio ''VOO'' 1))]
   \<and> get_difference_from_target (snd (buy_symbol scenario_portfolio ''VCIT'' 1)) = Inr (1 / 2)
   \<and> str_float (1 / 2) = ''0.5''
   \<and> explore scenario_portfolio [''VOO'', ''VCIT''] []
     = Inr [(''0.5'', snd (buy_symbol scenario_portfolio ''VCIT'' 2))]
   \<and> map quantity (assets (snd (buy_symbol scenario_portfolio ''VCIT'' 2))) = [10, 12]"
proof -
  have h1: "explore scenario_portfolio [''VOO''] []
     = Inr [(''0.5'', snd (buy_symbol scenario_portfolio ''VOO'' 1))]"
    by code_simp
  have h2: "buy_symbol (PortFolio (assets scenario_portfolio)) ''VCIT'' 1
     = (Inr (), snd (buy_symbol scenario_portfolio ''VCIT'' 1))"
    by code_simp
  have h3: "get_difference_from_target (snd (buy_symbol scenario_portfolio ''VCIT'' 1)) = Inr (1 / 2)"
    by code_simp
  have k: "str_float (1 / 2) = ''0.5''" by code_simp
  have h4: "map_of [(''0.5'', snd (buy_symbol scenario_portfolio ''VOO'' 1))] (str_float (1 / 2))
     = Some (snd (buy_symbol scenario_portfolio ''VOO'' 1))"
    by (simp add: k)
  have b2: "buy_symbol (snd (buy_symbol scenario_portfolio ''VCIT'' 1)) ''VCIT'' 1
     = (Inr (), snd (buy_symbol scenario_portfolio ''VCIT'' 2))"
    by code_simp
  have q: "map quantity (assets (snd (buy_symbol scenario_portfolio ''VCIT'' 2))) = [10, 12]"
    by code_simp
  from explore_tie_buys_second_share[OF h1 h2 h3 h4, of "[]"] b2
  have "explore scenario_portfolio ([''VOO''] @ [''VCIT'']) []
     = Inr (AList.update (str_float (1 / 2)) (snd (buy_symbol scenario_portfolio ''VCIT'' 2))
         [(''0.5'', snd (buy_symbol scenario_portfolio ''VOO'' 1))])"
    by auto
  then have "explore scenario_portfolio [''VOO'', ''VCIT''] []
     = Inr [(''0.5'', snd (buy_symbol scenario_portfolio ''VCIT'' 2))]"
    by (simp add: k)
  with h1 h3 k q show ?thesis by blast
qed

text \<open>
  C1. The candidate taken as the new working portfolio is the one under the least key, and
  the keys are compared as strings. For \<open>short_position_portfolio\<close> the two candidates
  have the scores 10.997 (one more share of VOO) and 9.033 (one more share of VCIT). As
  strings \<open>''10.997''\<close> is below \<open>''9.033''\<close>, so the step selects the purchase of VOO,
  whose score is the larger number.
\<close>

theorem rebalance_step_string_minimum:
  "map (\<lambda>(k, p). (k, map quantity (assets p), get_difference_from_target p))
       (projr (explore short_position_portfolio [''VOO'', ''VCIT''] []))
     = [(''10.997'', [621, - 26], Inr (10997 / 1000)),
        (''9.033'', [620, - 25], Inr (9033 / 1000))]
   \<and> min_key [''10.997'', ''9.033''] = Inr ''10.997''
   \<and> map_sum id (\<lambda>(cash, p). (cash, map quantity (assets p), get_difference_from_target p))
         (rebalance_step [''VOO'', ''VCIT''] 17000 short_position_portfolio)
     = Inr (16990, [621, - 26], Inr (10997 / 1000))
   \<and> (9033 / 1000 :: rat) < 10997 / 1000"
  by code_simp

section \<open>Prices with two decimals\<close>





section \<open>Buying into a constructed portfolio\<close>









section \<open>One pass of the loops\<close>












section \<open>The allocator stays within the budget and terminates\<close>





section \<open>What the allocator leaves untouched\<close>

lemma heap_extends_refl: "heap_extends h h"
  by (simp add: heap_extends_def)

lemma heap_extends_trans: "heap_extends h1 h2 \<Longrightarrow> heap_extends h2 h3 \<Longrightarrow> heap_extends h1 h3"
  by (auto simp: heap_extends_def)

lemma alloc_extends: "heap_extends h (snd (alloc ob h))"
  by (simp add: heap_extends_def alloc_def)

lemma alloc_next: "next_ref (snd (alloc ob h)) = Suc (next_ref h)"
  by (simp add: alloc_def)

lemma alloc_objs: "objs (snd (alloc ob h)) (next_ref h) = Some ob"
  by (simp add: alloc_def)

lemma store_extends:
  "heap_extends h0 h \<Longrightarrow> next_ref h0 \<le> r \<Longrightarrow> heap_extends h0 (store r ob h)"
  by (auto simp: heap_extends_def store_def)

lemma update_total_value_at_extends:
  "heap_extends h0 h \<Longrightarrow> next_ref h0 \<le> p \<Longrightarrow>
   heap_extends h0 (snd (update_total_value_at p h))"
  by (auto simp: update_total_value_at_def store_extends split: option.splits obj.splits sum.splits)

lemma update_total_value_at_refs:
  "objs h p = Some (PortFolioObj refs t) \<Longrightarrow>
   \<exists>t'. objs (snd (update_total_value_at p h)) p = Some (PortFolioObj refs t')"
  by (auto simp: update_total_value_at_def store_def split: sum.splits)

lemma update_total_value_at_next:
  "next_ref (snd (update_total_value_at p h)) = next_ref h"
  by (auto simp: update_total_value_at_def store_def split: option.splits obj.splits sum.splits)

lemma get_asset_at_in_refs:
  assumes "objs h p = Some (PortFolioObj refs t)" and "get_asset_at p smb h = Inr (Some r)"
  shows "r \<in> set refs"
proof -
  from assms obtain as where as: "read_assets refs h = Inr as"
      "(case filter (\<lambda>(r, a). symbol a = smb) (zip refs as) of [] \<Rightarrow> None | (r, a) # _ \<Rightarrow> Some r)
         = Some r"
    by (auto simp: get_asset_at_def split: sum.splits)
  then obtain a rest where "filter (\<lambda>(r, a). symbol a = smb) (zip refs as) = (r, a) # rest"
    by (auto split: list.splits)
  then have "(r, a) \<in> set (filter (\<lambda>(r, a). symbol a = smb) (zip refs as))" by simp
  then have "(r, a) \<in> set (zip refs as)" by simp
  then show ?thesis by (rule set_zip_leftD)
qed

lemma buy_symbol_at_extends:
  assumes "heap_extends h0 h" and "next_ref h0 \<le> p"
      and "objs h p = Some (PortFolioObj refs t)" and "\<forall>r\<in>set refs. next_ref h0 \<le> r"
  shows "heap_extends h0 (snd (buy_symbol_at p smb n h))"
proof (cases "get_asset_at p smb h")
  case (Inl e)
  with assms(1) show ?thesis by (simp add: buy_symbol_at_def)
next
  case (Inr found)
  show ?thesis
  proof (cases found)
    case None
    with Inr assms(1) show ?thesis by (simp add: buy_symbol_at_def)
  next
    case (Some r)
    with Inr assms(3) have "r \<in> set refs" using get_asset_at_in_refs by blast
    with assms(4) have r: "next_ref h0 \<le> r" by blast
    show ?thesis
    proof (cases "read_asset r h")
      case (Inl e)
      with Inr Some assms(1) show ?thesis by (simp add: buy_symbol_at_def)
    next
      case (Inr a)
      have "heap_extends h0 (store r (AssetObj (a\<lparr>quantity := quantity a + n\<rparr>)) h)"
        using assms(1) r by (rule store_extends)
      then have "heap_extends h0 (snd (update_total_value_at p
          (store r (AssetObj (a\<lparr>quantity := quantity a + n\<rparr>)) h)))"
        using assms(2) by (rule update_total_value_at_extends)
      with Inr Some \<open>get_asset_at p smb h = Inr found\<close> show ?thesis
        by (simp add: buy_symbol_at_def)
    qed
  qed
qed

lemma buy_symbol_at_refs:
  assumes "objs h p = Some (PortFolioObj refs t)" and "p \<notin> set refs"
  shows "\<exists>t'. objs (snd (buy_symbol_at p smb n h)) p = Some (PortFolioObj refs t')"
proof (cases "get_asset_at p smb h")
  case (Inl e)
  with assms(1) show ?thesis by (simp add: buy_symbol_at_def)
next
  case (Inr found)
  show ?thesis
  proof (cases found)
    case None
    with Inr assms(1) show ?thesis by (simp add: buy_symbol_at_def)
  next
    case (Some r)
    with Inr assms(1) have "r \<in> set refs" using get_asset_at_in_refs by blast
    with assms(2) have ne: "r \<noteq> p" by blast
    show ?thesis
    proof (cases "read_asset r h")
      case (Inl e)
      with Inr Some assms(1) show ?thesis by (simp add: buy_symbol_at_def)
    next
      case (Inr a)
      have "objs (store r (AssetObj (a\<lparr>quantity := quantity a + n\<rparr>)) h) p
          = Some (PortFolioObj refs t)"
        using assms(1) ne by (simp add: store_def)
      from update_total_value_at_refs[OF this] Inr Some \<open>get_asset_at p smb h = Inr found\<close>
      show ?thesis by (simp add: buy_symbol_at_def)
    qed
  qed
qed

lemma buy_symbol_at_next: "next_ref (snd (buy_symbol_at p smb n h)) = next_ref h"
  by (auto simp: buy_symbol_at_def update_total_value_at_next store_def
      split: sum.splits option.splits)

lemma deepcopy_refs_extends:
  "deepcopy_refs memo rs h = (res, h') \<Longrightarrow>
   heap_extends h h' \<and>
   (\<forall>rs'. res = Inr rs' \<longrightarrow>
      (\<forall>r'\<in>set rs'. r' \<in> snd ` set memo \<or> (next_ref h \<le> r' \<and> r' < next_ref h')))"
proof (induction rs arbitrary: memo h res h')
  case Nil
  then show ?case by (auto simp: heap_extends_refl)
next
  case (Cons r rs)
  show ?case
  proof (cases "map_of memo r")
    case (Some r')
    obtain res1 h1 where c: "deepcopy_refs memo rs h = (res1, h1)" by (cases "deepcopy_refs memo rs h")
    from Cons.IH[OF c] have ih: "heap_extends h h1"
      "\<forall>rs'. res1 = Inr rs' \<longrightarrow>
        (\<forall>r'\<in>set rs'. r' \<in> snd ` set memo \<or> (next_ref h \<le> r' \<and> r' < next_ref h1))"
      by blast+
    from Some have m: "r' \<in> snd ` set memo" by (force dest: map_of_SomeD)
    from Cons.prems Some c have "h' = h1" "res = (case res1 of Inl e \<Rightarrow> Inl e | Inr rs' \<Rightarrow> Inr (r' # rs'))"
      by (auto split: sum.splits)
    with ih m show ?thesis by (auto split: sum.splits)
  next
    case None
    show ?thesis
    proof (cases "read_asset r h")
      case (Inl e)
      with Cons.prems None show ?thesis by (auto simp: heap_extends_refl)
    next
      case (Inr a)
      let ?h1 = "snd (alloc (AssetObj a) h)"
      obtain res1 h2 where c: "deepcopy_refs ((r, next_ref h) # memo) rs ?h1 = (res1, h2)"
        by (cases "deepcopy_refs ((r, next_ref h) # memo) rs ?h1")
      from Cons.IH[OF c] have ih: "heap_extends ?h1 h2"
        "\<forall>rs'. res1 = Inr rs' \<longrightarrow>
          (\<forall>r'\<in>set rs'. r' \<in> snd ` set ((r, next_ref h) # memo)
              \<or> (next_ref ?h1 \<le> r' \<and> r' < next_ref h2))"
        by blast+
      have e: "heap_extends h h2" using alloc_extends ih(1) by (rule heap_extends_trans)
      have lt: "next_ref h < next_ref h2"
        using ih(1) by (simp add: heap_extends_def alloc_next)
      from Cons.prems None Inr c have r: "h' = h2"
          "res = (case res1 of Inl e \<Rightarrow> Inl e | Inr rs' \<Rightarrow> Inr (next_ref h # rs'))"
        by (auto split: sum.splits)
      have "\<forall>rs'. res = Inr rs' \<longrightarrow>
          (\<forall>r'\<in>set rs'. r' \<in> snd ` set memo \<or> (next_ref h \<le> r' \<and> r' < next_ref h2))"
      proof (intro allI impI ballI)
        fix rs' r' assume rs': "res = Inr rs'" and r': "r' \<in> set rs'"
        from rs' r(2) obtain rs1 where rs1: "res1 = Inr rs1" "rs' = next_ref h # rs1"
          by (auto split: sum.splits)
        show "r' \<in> snd ` set memo \<or> (next_ref h \<le> r' \<and> r' < next_ref h2)"
        proof (cases "r' = next_ref h")
          case True
          with lt show ?thesis by simp
        next
          case False
          with r' rs1(2) have "r' \<in> set rs1" by simp
          with ih(2) rs1(1) have "r' \<in> snd ` set ((r, next_ref h) # memo)
              \<or> (next_ref ?h1 \<le> r' \<and> r' < next_ref h2)" by blast
          with False show ?thesis by (auto simp: alloc_next)
        qed
      qed
      with e r(1) show ?thesis by simp
    qed
  qed
qed

lemma PortFolio_at_extends:
  assumes "PortFolio_at refs h = (res, h')"
  shows "heap_extends h h' \<and> next_ref h' = Suc (next_ref h)
     \<and> (\<forall>p. res = Inr p \<longrightarrow> p = next_ref h \<and> (\<exists>t. objs h' p = Some (PortFolioObj refs t)))"
proof -
  let ?h1 = "snd (alloc (PortFolioObj refs 0) h)"
  have h': "h' = snd (update_total_value_at (next_ref h) ?h1)"
    using assms by (auto simp: PortFolio_at_def split: prod.splits sum.splits)
  have "heap_extends h ?h1" by (rule alloc_extends)
  then have 1: "heap_extends h h'"
    unfolding h' by (rule update_total_value_at_extends) simp
  have 2: "next_ref h' = Suc (next_ref h)"
    unfolding h' by (simp add: update_total_value_at_next alloc_next)
  have "objs ?h1 (next_ref h) = Some (PortFolioObj refs 0)" by (rule alloc_objs)
  from update_total_value_at_refs[OF this]
  have 3: "\<exists>t. objs h' (next_ref h) = Some (PortFolioObj refs t)" unfolding h' .
  have 4: "\<forall>p. res = Inr p \<longrightarrow> p = next_ref h"
    using assms by (auto simp: PortFolio_at_def split: prod.splits sum.splits)
  from 1 2 3 4 show ?thesis by blast
qed

lemma explore_symbol_at_extends: "heap_extends h (snd (explore_symbol_at w d smb h))"
proof (cases "objs h w")
  case None
  then show ?thesis by (simp add: explore_symbol_at_def heap_extends_refl)
next
  case (Some ob)
  show ?thesis
  proof (cases ob)
    case (AssetObj a)
    with Some show ?thesis by (simp add: explore_symbol_at_def heap_extends_refl)
  next
    case (PortFolioObj refs t)
    obtain res1 h1 where dc: "deepcopy_refs [] refs h = (res1, h1)"
      by (cases "deepcopy_refs [] refs h")
    from deepcopy_refs_extends[OF dc] have e1: "heap_extends h h1"
      and fresh: "\<forall>rs'. res1 = Inr rs' \<longrightarrow> (\<forall>r'\<in>set rs'. next_ref h \<le> r' \<and> r' < next_ref h1)"
      by auto
    show ?thesis
    proof (cases res1)
      case (Inl e)
      with Some PortFolioObj dc e1 show ?thesis by (simp add: explore_symbol_at_def)
    next
      case (Inr new_assets)
      obtain res2 h2 where pf: "PortFolio_at new_assets h1 = (res2, h2)"
        by (cases "PortFolio_at new_assets h1")
      from PortFolio_at_extends[OF pf] have e2: "heap_extends h1 h2"
        and made: "\<forall>p. res2 = Inr p \<longrightarrow>
            p = next_ref h1 \<and> (\<exists>t. objs h2 p = Some (PortFolioObj new_assets t))"
        by auto
      have e12: "heap_extends h h2" using e1 e2 by (rule heap_extends_trans)
      show ?thesis
      proof (cases res2)
        case (Inl e)
        with Some PortFolioObj dc Inr pf e12 show ?thesis by (simp add: explore_symbol_at_def)
      next
        case res2: (Inr np)
        with made obtain t2 where np: "np = next_ref h1"
            "objs h2 np = Some (PortFolioObj new_assets t2)" by blast
        have f1: "next_ref h \<le> np" using e1 np(1) by (simp add: heap_extends_def)
        have f2: "\<forall>r\<in>set new_assets. next_ref h \<le> r" using fresh Inr by blast
        have f3: "np \<notin> set new_assets" using fresh Inr np(1) by auto
        let ?h3 = "snd (buy_symbol_at np smb 1 h2)"
        let ?h4 = "snd (buy_symbol_at np smb 1 ?h3)"
        have e3: "heap_extends h ?h3"
          using e12 f1 np(2) f2 by (rule buy_symbol_at_extends)
        from buy_symbol_at_refs[OF np(2) f3] obtain t3 where
          r3: "objs ?h3 np = Some (PortFolioObj new_assets t3)" by blast
        have e4: "heap_extends h ?h4"
          using e3 f1 r3 f2 by (rule buy_symbol_at_extends)
        have "snd (explore_symbol_at w d smb h) = ?h3 \<or> snd (explore_symbol_at w d smb h) = ?h4"
          using Some PortFolioObj dc Inr pf res2
          by (auto simp: explore_symbol_at_def Let_def split: prod.splits sum.splits option.splits)
        with e3 e4 show ?thesis by auto
      qed
    qed
  qed
qed

lemma explore_at_extends: "heap_extends h (snd (explore_at w ss d h))"
proof (induction ss arbitrary: d h)
  case Nil
  then show ?case by (simp add: heap_extends_refl)
next
  case (Cons s ss)
  obtain res h1 where c: "explore_symbol_at w d s h = (res, h1)"
    by (cases "explore_symbol_at w d s h")
  have e1: "heap_extends h h1" using explore_symbol_at_extends[of h w d s] c by simp
  show ?case
  proof (cases res)
    case (Inl e)
    with c e1 show ?thesis by simp
  next
    case (Inr d1)
    have "heap_extends h (snd (explore_at w ss d1 h1))"
      using e1 Cons.IH by (rule heap_extends_trans)
    with c Inr show ?thesis by simp
  qed
qed

lemma rebalance_step_at_extends: "heap_extends h (snd (rebalance_step_at syms cash w h))"
proof -
  have "snd (rebalance_step_at syms cash w h) = snd (explore_at w syms [] h)"
    by (auto simp: rebalance_step_at_def split: prod.splits sum.splits option.splits)
  then show ?thesis by (simp add: explore_at_extends)
qed

lemma rebalance_loop_at_extends:
  "heap_extends h (snd (rebalance_loop_at n syms cash w prev h))"
proof (induction n arbitrary: cash w prev h)
  case 0
  then show ?case by (simp add: heap_extends_refl)
next
  case (Suc n)
  show ?case
  proof (cases "0 < cash")
    case False
    then show ?thesis by (simp add: heap_extends_refl)
  next
    case True
    obtain res h1 where c: "rebalance_step_at syms cash w h = (res, h1)"
      by (cases "rebalance_step_at syms cash w h")
    have e1: "heap_extends h h1" using rebalance_step_at_extends[of h syms cash w] c by simp
    show ?thesis
    proof (cases res)
      case (Inl e)
      with True c e1 show ?thesis by simp
    next
      case (Inr cw)
      obtain cash' w' where cw: "cw = (cash', w')" by (cases cw)
      have "heap_extends h (snd (rebalance_loop_at n syms cash' w' w h1))"
        using e1 Suc.IH by (rule heap_extends_trans)
      with True c Inr cw show ?thesis by simp
    qed
  qed
qed

lemma deepcopy_portfolio_extends: "heap_extends h (snd (deepcopy_portfolio p h))"
proof (cases "objs h p")
  case None
  then show ?thesis by (simp add: deepcopy_portfolio_def heap_extends_refl)
next
  case (Some ob)
  show ?thesis
  proof (cases ob)
    case (AssetObj a)
    with Some show ?thesis by (simp add: deepcopy_portfolio_def heap_extends_refl)
  next
    case (PortFolioObj refs t)
    obtain res1 h1 where dc: "deepcopy_refs [] refs h = (res1, h1)"
      by (cases "deepcopy_refs [] refs h")
    from deepcopy_refs_extends[OF dc] have e1: "heap_extends h h1" by simp
    show ?thesis
    proof (cases res1)
      case (Inl e)
      with Some PortFolioObj dc e1 show ?thesis by (simp add: deepcopy_portfolio_def)
    next
      case (Inr refs')
      have "heap_extends h (snd (alloc (PortFolioObj refs' t) h1))"
        using e1 alloc_extends by (rule heap_extends_trans)
      with Some PortFolioObj dc Inr show ?thesis by (simp add: deepcopy_portfolio_def)
    qed
  qed
qed

lemma rebalance_with_at_extends: "heap_extends h (snd (rebalance_with_at n budget p h))"
proof -
  obtain res1 h1 where dc: "deepcopy_portfolio p h = (res1, h1)"
    by (cases "deepcopy_portfolio p h")
  have e1: "heap_extends h h1" using deepcopy_portfolio_extends[of h p] dc by simp
  show ?thesis
  proof (cases res1)
    case (Inl e)
    with dc e1 show ?thesis by (simp add: rebalance_with_at_def)
  next
    case w: (Inr w)
    show ?thesis
    proof (cases "read_portfolio p h1")
      case (Inl e)
      with dc w e1 show ?thesis by (simp add: rebalance_with_at_def)
    next
      case (Inr v)
      obtain lres h2 where lp:
        "rebalance_loop_at n (map symbol (assets v)) budget w w h1 = (lres, h2)"
        by (cases "rebalance_loop_at n (map symbol (assets v)) budget w w h1")
      have "heap_extends h1 h2"
        using rebalance_loop_at_extends[of h1 n "map symbol (assets v)" budget w w] lp by simp
      with e1 have e2: "heap_extends h h2" by (rule heap_extends_trans)
      have "snd (rebalance_with_at n budget p h) = h2"
        using dc w Inr lp
        by (simp add: rebalance_with_at_def split: option.splits sum.splits prod.splits)
      with e2 show ?thesis by simp
    qed
  qed
qed

lemma read_asset_extends:
  "heap_extends h h' \<Longrightarrow> r < next_ref h \<Longrightarrow> read_asset r h' = read_asset r h"
  by (simp add: read_asset_def heap_extends_def)

lemma read_assets_extends:
  "heap_extends h h' \<Longrightarrow> \<forall>r\<in>set refs. r < next_ref h \<Longrightarrow> read_assets refs h' = read_assets refs h"
  by (induction refs) (auto simp: read_asset_extends split: sum.splits)

text \<open>
  C9. Running the allocator on the portfolio object at \<open>p\<close>, for any budget and any
  number of passes of the loop, whether the run has ended, raised or is still going: the
  portfolio object and the asset objects of its list are in the store exactly as before,
  so the portfolio reads as the same value (same symbols, prices, quantities and
  \<open>total_value\<close>). In fact every object that was in use before the call is unchanged.
\<close>

theorem rebalance_leaves_portfolio_unchanged:
  assumes "objs h p = Some (PortFolioObj refs t)"
      and "p < next_ref h" and "\<forall>r\<in>set refs. r < next_ref h"
  shows "objs (snd (rebalance_with_at n budget p h)) p = Some (PortFolioObj refs t)
     \<and> (\<forall>r\<in>set refs. objs (snd (rebalance_with_at n budget p h)) r = objs h r)
     \<and> read_portfolio p (snd (rebalance_with_at n budget p h)) = read_portfolio p h
     \<and> heap_extends h (snd (rebalance_with_at n budget p h))
     \<and> snd (rebalance_portfolio_at n p h) = snd (rebalance_with_at n CASH_TO_INVEST p h)"
proof -
  let ?h' = "snd (rebalance_with_at n budget p h)"
  have e: "heap_extends h ?h'" by (rule rebalance_with_at_extends)
  have 1: "objs ?h' p = Some (PortFolioObj refs t)"
    using e assms(1,2) by (simp add: heap_extends_def)
  have 2: "\<forall>r\<in>set refs. objs ?h' r = objs h r"
    using e assms(3) by (simp add: heap_extends_def)
  have "read_assets refs ?h' = read_assets refs h"
    using e assms(3) by (rule read_assets_extends)
  with 1 assms(1) have 3: "read_portfolio p ?h' = read_portfolio p h"
    by (simp add: read_portfolio_def)
  have 4: "snd (rebalance_portfolio_at n p h) = snd (rebalance_with_at n CASH_TO_INVEST p h)"
    by (simp add: rebalance_portfolio_at_def)
  from 1 2 3 e 4 show ?thesis by blast
qed

theorem rebalance_leaves_portfolio_unchanged_witness:
  "read_portfolio 2 scenario_heap = Inr scenario_portfolio
   \<and> read_portfolio 2 (snd (rebalance_with_at 5 120 2 scenario_heap)) = Inr scenario_portfolio
   \<and> (case rebalance_with_at 5 120 2 scenario_heap of
         (res, h') \<Rightarrow> (res, next_ref h', read_portfolio 11 h'))
       = (Some (Inr 11), 18, Inr (PortFolio [Asset ''VOO'' 100 10 '''', Asset ''VCIT'' 50 12 '''']))
   \<and> rebalance_with 120 scenario_portfolio
       = Some (Inr (PortFolio [Asset ''VOO'' 100 10 '''', Asset ''VCIT'' 50 12 '''']))"
proof -
  have h1: "objs scenario_heap 2 = Some (PortFolioObj [0, 1] 1500)" by code_simp
  have h2: "2 < next_ref scenario_heap" by code_simp
  have h3: "\<forall>r\<in>set [0, 1]. r < next_ref scenario_heap" by code_simp
  have r0: "read_portfolio 2 scenario_heap = Inr scenario_portfolio" by code_simp
  have ev: "(case rebalance_with_at 5 120 2 scenario_heap of
         (res, h') \<Rightarrow> (res, next_ref h', read_portfolio 11 h'))
       = (Some (Inr 11), 18, Inr (PortFolio [Asset ''VOO'' 100 10 '''', Asset ''VCIT'' 50 12 '''']))"
    by code_simp
  from rebalance_leaves_portfolio_unchanged[OF h1 h2 h3, of 5 120] r0
  have "read_portfolio 2 (snd (rebalance_with_at 5 120 2 scenario_heap)) = Inr scenario_portfolio"
    by simp
  moreover have "rebalance_with 120 scenario_portfolio
       = Some (Inr (PortFolio [Asset ''VOO'' 100 10 '''', Asset ''VCIT'' 50 12 '''']))"
    by code_simp
  ultimately show ?thesis using r0 ev by blast
qed

section \<open>Where the order of the keys is the order of the scores\<close>

lemma digit_char_code: "0 \<le> d \<Longrightarrow> d \<le> 9 \<Longrightarrow> (of_char (digit_char d) :: nat) = nat d + 48"
proof -
  assume "0 \<le> d" "d \<le> 9"
  then have "d = 0 \<or> d = 1 \<or> d = 2 \<or> d = 3 \<or> d = 4 \<or> d = 5 \<or> d = 6 \<or> d = 7 \<or> d = 8 \<or> d = 9"
    by arith
  then show ?thesis by (elim disjE) (simp_all add: digit_char_def)
qed

lemma digit_char_less:
  "0 \<le> i \<Longrightarrow> i < j \<Longrightarrow> j \<le> 9 \<Longrightarrow> digit_char i < digit_char j"
  using digit_char_code[of i] digit_char_code[of j] by (simp add: less_char_def)

lemma frac3_less:
  assumes "0 \<le> f1" and "f1 < f2" and "f2 < 1000"
  shows "frac3 f1 < frac3 f2"
proof -
  define a1 b1 c1 where "a1 = f1 div 100 mod 10" and "b1 = f1 div 10 mod 10" and "c1 = f1 mod 10"
  define a2 b2 c2 where "a2 = f2 div 100 mod 10" and "b2 = f2 div 10 mod 10" and "c2 = f2 mod 10"
  note d = a1_def b1_def c1_def a2_def b2_def c2_def
  have r1: "0 \<le> a1" "a1 \<le> 9" "0 \<le> b1" "b1 \<le> 9" "0 \<le> c1" "c1 \<le> 9"
    unfolding d by simp_all
  have r2: "0 \<le> a2" "a2 \<le> 9" "0 \<le> b2" "b2 \<le> 9" "0 \<le> c2" "c2 \<le> 9"
    unfolding d by simp_all
  have split: "f = 100 * (f div 100 mod 10) + 10 * (f div 10 mod 10) + f mod 10"
    if "0 \<le> f" "f < 1000" for f :: int
  proof -
    have "f div 100 \<le> 999 div 100" using that by (intro zdiv_mono1) simp_all
    then have "f div 100 < 10" by simp
    moreover have "0 \<le> f div 100" using that by (simp add: pos_imp_zdiv_nonneg_iff)
    ultimately have 1: "f div 100 mod 10 = f div 100" by (intro mod_pos_pos_trivial)
    have 2: "f mod (10 * 10) = 10 * (f div 10 mod 10) + f mod 10" by (rule zmod_zmult2_eq) simp
    have 3: "f = 100 * (f div 100) + f mod (10 * 10)" by simp
    show ?thesis unfolding 1 using 2 3 by linarith
  qed
  have f1: "f1 = 100 * a1 + 10 * b1 + c1" unfolding d using assms by (intro split) simp_all
  have f2: "f2 = 100 * a2 + 10 * b2 + c2" unfolding d using assms by (intro split) simp_all
  have s1: "frac3 f1 = (if c1 \<noteq> 0 then [digit_char a1, digit_char b1, digit_char c1]
      else if b1 \<noteq> 0 then [digit_char a1, digit_char b1] else [digit_char a1])"
    unfolding d by (simp add: frac3_def Let_def)
  have s2: "frac3 f2 = (if c2 \<noteq> 0 then [digit_char a2, digit_char b2, digit_char c2]
      else if b2 \<noteq> 0 then [digit_char a2, digit_char b2] else [digit_char a2])"
    unfolding d by (simp add: frac3_def Let_def)
  have la: "a1 \<le> a2" using assms(2) f1 f2 r1 r2 by linarith
  have lb: "b1 \<le> b2" if "a1 = a2" using that assms(2) f1 f2 r1 r2 by linarith
  have lc: "c1 < c2" if "a1 = a2" "b1 = b2" using that assms(2) f1 f2 by linarith
  from la lb lc consider
      (A) "a1 < a2" | (B) "a1 = a2" "b1 < b2" | (C) "a1 = a2" "b1 = b2" "c1 < c2"
    by fastforce
  then show ?thesis
  proof cases
    case A
    then have "digit_char a1 < digit_char a2" using r1 r2 by (intro digit_char_less) auto
    then show ?thesis unfolding s1 s2 by simp
  next
    case B
    then have "digit_char b1 < digit_char b2" using r1 r2 by (intro digit_char_less) auto
    moreover from B r1 have "b2 \<noteq> 0" by auto
    ultimately show ?thesis unfolding s1 s2 using B(1) by simp
  next
    case C
    then have "digit_char c1 < digit_char c2" using r1 r2 by (intro digit_char_less) auto
    moreover from C r1 have "c2 \<noteq> 0" by auto
    ultimately show ?thesis unfolding s1 s2 using C(1,2) by simp
  qed
qed

lemma str_float_less:
  assumes "0 \<le> kx" and "kx < ky" and "ky < 10000"
  shows "str_float (of_int kx / 1000) < str_float (of_int ky / 1000)"
proof -
  have fx: "\<lfloor>\<bar>rat_of_int kx / 1000\<bar> * 1000\<rfloor> = kx" using assms(1) by simp
  have fy: "\<lfloor>\<bar>rat_of_int ky / 1000\<bar> * 1000\<rfloor> = ky" using assms(1,2) by simp
  have "kx div 1000 < 10" "ky div 1000 < 10" using assms by arith+
  then have dx: "digits (kx div 1000) = [digit_char (kx div 1000)]"
    and dy: "digits (ky div 1000) = [digit_char (ky div 1000)]"
    by (subst digits.simps, simp)+
  have sx: "str_float (of_int kx / 1000)
      = digit_char (kx div 1000) # CHR ''.'' # frac3 (kx mod 1000)"
    using assms(1) by (simp add: str_float_def fx dx Let_def)
  have sy: "str_float (of_int ky / 1000)
      = digit_char (ky div 1000) # CHR ''.'' # frac3 (ky mod 1000)"
    using assms(1,2) by (simp add: str_float_def fy dy Let_def)
  have le: "kx div 1000 \<le> ky div 1000" using assms(2) by (intro zdiv_mono1) auto
  have "kx mod 1000 < ky mod 1000" if "kx div 1000 = ky div 1000"
  proof -
    have "kx = 1000 * (kx div 1000) + kx mod 1000" "ky = 1000 * (ky div 1000) + ky mod 1000"
      by simp_all
    with that assms(2) show ?thesis by linarith
  qed
  with le consider (I) "kx div 1000 < ky div 1000"
    | (F) "kx div 1000 = ky div 1000" "kx mod 1000 < ky mod 1000"
    by fastforce
  then show ?thesis
  proof cases
    case I
    have "digit_char (kx div 1000) < digit_char (ky div 1000)"
      using I assms by (intro digit_char_less) auto
    then show ?thesis unfolding sx sy by simp
  next
    case F
    have "frac3 (kx mod 1000) < frac3 (ky mod 1000)"
      using F(2) by (intro frac3_less) auto
    then show ?thesis unfolding sx sy using F(1) by simp
  qed
qed

lemma fold_less_is_Min:
  "fold (\<lambda>x m. if x < m then x else m) ks (k :: string) = Min (set (k # ks))"
proof -
  have "(\<lambda>x m :: string. if x < m then x else m) = min"
    by (intro ext) (auto simp: min_def)
  then show ?thesis by (simp only: Min.set_eq_fold)
qed

text \<open>
  When every score of the mapping has three decimals and lies in \<open>[0, 10)\<close>, the least
  key as a string is the key of the least score.
\<close>

lemma min_key_least_score:
  assumes "ks \<noteq> []" and "\<forall>k\<in>set ks. 0 \<le> k \<and> k < 10000"
  shows "min_key (map (\<lambda>k. str_float (of_int k / 1000)) ks)
     = Inr (str_float (of_int (Min (set ks)) / 1000))"
proof -
  let ?f = "\<lambda>k. str_float (rat_of_int k / 1000)"
  obtain k ks' where ks: "ks = k # ks'" using assms(1) by (cases ks) auto
  have m: "min_key (map ?f ks) = Inr (Min (set (map ?f ks)))"
    unfolding ks by (simp add: min_key_def fold_less_is_Min)
  have fin: "finite (set ks)" "set ks \<noteq> {}" using assms(1) by auto
  have mem: "Min (set ks) \<in> set ks" using fin by (rule Min_in)
  have "Min (?f ` set ks) = ?f (Min (set ks))"
  proof (rule Min_eqI)
    show "finite (?f ` set ks)" by simp
    show "?f (Min (set ks)) \<in> ?f ` set ks" using mem by blast
    fix y assume "y \<in> ?f ` set ks"
    then obtain j where j: "j \<in> set ks" "y = ?f j" by blast
    have le: "Min (set ks) \<le> j" using j(1) by simp
    show "?f (Min (set ks)) \<le> y"
    proof (cases "Min (set ks) = j")
      case True
      with j(2) show ?thesis by simp
    next
      case False
      with le have "Min (set ks) < j" by simp
      moreover have "0 \<le> Min (set ks)" "j < 10000" using assms(2) mem j(1) by auto
      ultimately have "?f (Min (set ks)) < ?f j" by (intro str_float_less) auto
      with j(2) show ?thesis by simp
    qed
  qed
  with m show ?thesis by simp
qed

end
